theory Spec2Isabelle
  imports Main "HOL-Library.AList"
begin

section \<open>Python values used by \<open>gruptree2df.py\<close>\<close>

text \<open>
  The exceptions that the modelled statements can raise, and the two ways in which
  \<open>deck2df\<close> stops without a table: \<open>return\<close> with no value, or an exception that
  nothing in the module catches.
\<close>

datatype exn = TypeError | ValueError | OverflowError | KeyError
  | OutOfBoundsDatetime | MonthParseError

datatype stop = ReturnNone | Exception exn

text \<open>Calls of the \<open>logging\<close> module, kept in call order.\<close>

datatype level = WARNING | CRITICAL | INFO

subsection \<open>\<open>datetime.date\<close>\<close>

text \<open>
  A \<open>datetime.date\<close> is represented by its proleptic Gregorian ordinal
  (\<open>date.toordinal()\<close>, day 1 is 0001-01-01), the number Python itself computes with
  when a \<open>timedelta\<close> is added. The constructor checks the calendar and raises
  \<open>ValueError\<close>; the valid ordinals are 1 .. 3652059 (9999-12-31). Day, month and
  year are integers of the parser, within the range of a C \<open>int\<close>.
\<close>

type_synonym date = int

definition is_leap :: "int \<Rightarrow> bool" where
  "is_leap year = (year mod 4 = 0 \<and> (year mod 400 = 0 \<or> year mod 100 \<noteq> 0))"

definition days_before_year :: "int \<Rightarrow> int" where
  "days_before_year year =
     (let y = year - 1 in y * 365 + y div 4 - y div 100 + y div 400)"

definition days_in_month :: "int \<Rightarrow> int \<Rightarrow> int" where
  "days_in_month year month =
     (if month = 2 \<and> is_leap year then 29
      else if month = 2 then 28
      else if month = 4 \<or> month = 6 \<or> month = 9 \<or> month = 11 then 30
      else 31)"

definition days_before_month :: "int \<Rightarrow> int \<Rightarrow> int" where
  "days_before_month year month =
     (if month = 1 then 0 else if month = 2 then 31 else if month = 3 then 59
      else if month = 4 then 90 else if month = 5 then 120 else if month = 6 then 151
      else if month = 7 then 181 else if month = 8 then 212 else if month = 9 then 243
      else if month = 10 then 273 else if month = 11 then 304 else 334)
     + (if month > 2 \<and> is_leap year then 1 else 0)"

definition ymd2ord :: "int \<Rightarrow> int \<Rightarrow> int \<Rightarrow> date" where
  "ymd2ord year month day = days_before_year year + days_before_month year month + day"

definition MAXORDINAL :: int where
  "MAXORDINAL = 3652059"

definition datetime_date :: "int \<Rightarrow> int \<Rightarrow> int \<Rightarrow> exn + date" where
  "datetime_date year month day =
     (if \<not> (1 \<le> year \<and> year \<le> 9999) then Inl ValueError
      else if \<not> (1 \<le> month \<and> month \<le> 12) then Inl ValueError
      else if \<not> (1 \<le> day \<and> day \<le> days_in_month year month) then Inl ValueError
      else Inr (ymd2ord year month day))"

text \<open>
  \<open>date + datetime.timedelta(days=days)\<close> for a whole number of days: the
  \<open>timedelta\<close> is built first (at most 999999999 days in magnitude), then the sum
  of the ordinals has to be a valid ordinal.
\<close>

definition timedelta_ok :: "int \<Rightarrow> bool" where
  "timedelta_ok days = (- 999999999 \<le> days \<and> days \<le> 999999999)"

definition date_add :: "date \<Rightarrow> int \<Rightarrow> exn + date" where
  "date_add d days =
     (let ord = d + days
      in if 0 < ord \<and> ord \<le> MAXORDINAL then Inr ord else Inl OverflowError)"

text \<open>The fallback \<open>datetime.date(year=1900, month=1, day=1)\<close> of line 88.\<close>

definition date_1900_01_01 :: date where
  "date_1900_01_01 = ymd2ord 1900 1 1"

text \<open>
  \<open>pd.to_datetime\<close> turns dates into nanosecond timestamps, which exist from
  1677-09-22 to 2262-04-11 only; a date outside raises \<open>OutOfBoundsDatetime\<close>, a
  missing date (\<open>None\<close>) becomes \<open>NaT\<close>.
\<close>

definition timestamp_ok :: "date option \<Rightarrow> bool" where
  "timestamp_ok d =
     (case d of None \<Rightarrow> True
      | Some ord \<Rightarrow> ymd2ord 1677 9 22 \<le> ord \<and> ord \<le> ymd2ord 2262 4 11)"

section \<open>The parsed deck\<close>

text \<open>
  The deck is what the external parser hands over: a sequence of keywords, each with
  its records. Item values are strings or numbers; numbers are carried through
  unchanged and are represented by integers, and so are the step lengths of
  \<open>TSTEP\<close>, which are whole days here (the rounding of a floating-point sum is outside
  this model). A \<open>GRUPNET\<close> record is read by item name, an item being the list of its
  values; an item the record does not have makes the access raise \<open>ValueError\<close>.
\<close>

datatype val = Str string | Num int

record dates_rec =
  DAY :: int
  MONTH :: string
  YEAR :: int

type_synonym grupnet_rec = "(string \<times> val list) list"

datatype keyword =
    DATES "dates_rec list"
  | START "dates_rec list"
  | TSTEP "int list list"
  | GRUPTREE "(string \<times> string) list"
  | WELSPECS "(string \<times> string) list"
  | GRUPNET "grupnet_rec list"
  | OTHER string

definition GRUPNETKEYS :: "string list" where
  "GRUPNETKEYS = [''NAME'', ''TERMINAL_PRESSURE'', ''VFP_TABLE'', ''ALQ'',
     ''SUB_SEA_MANIFOLD'', ''LIFT_GAS_FLOW_THROUGH'', ''ALQ_SURFACE_EQV'']"

section \<open>The network attribute table (\<open>grupnet_df\<close>)\<close>

text \<open>
  \<open>pd.DataFrame(grupnetrecords).drop_duplicates(subset="NAME", keep="last")
  .set_index("NAME")\<close>: the frame has a column for every key that occurs in some
  record, a record without a key has no value there (\<open>NaN\<close>). Of the rows with the same
  \<open>NAME\<close> the last is kept, and \<open>NAME\<close> becomes the index. Without a \<open>NAME\<close> column
  (no record has the key, or there is no record) pandas raises \<open>KeyError\<close>.
  The columns other than \<open>NAME\<close> are listed in the order of \<open>GRUPNETKEYS\<close>.
\<close>

type_synonym grupnet_data = "(string \<times> val) list"

record dataframe =
  columns :: "string list"
  index_rows :: "(val option \<times> grupnet_data) list"

definition empty_DataFrame :: dataframe where
  "empty_DataFrame = \<lparr>columns = [], index_rows = []\<rparr>"

fun drop_duplicates_last :: "('k \<times> 'r) list \<Rightarrow> ('k \<times> 'r) list" where
  "drop_duplicates_last [] = []"
| "drop_duplicates_last (x # xs) =
     (if fst x \<in> fst ` set xs then drop_duplicates_last xs
      else x # drop_duplicates_last xs)"

definition has_key :: "string \<Rightarrow> grupnet_data \<Rightarrow> bool" where
  "has_key k r = (k \<in> fst ` set r)"

definition build_grupnet_df :: "grupnet_data list \<Rightarrow> exn + dataframe" where
  "build_grupnet_df recs =
     (if \<not> (\<exists>r \<in> set recs. has_key ''NAME'' r) then Inl KeyError
      else Inr \<lparr>columns = filter (\<lambda>k. k \<noteq> ''NAME'' \<and> (\<exists>r \<in> set recs. has_key k r)) GRUPNETKEYS,
                index_rows = drop_duplicates_last (map (\<lambda>r. (map_of r ''NAME'', r)) recs)\<rparr>)"

text \<open>\<open>name in grupnet_df.index\<close> and \<open>grupnet_df.loc[name]\<close> (a value for every column).\<close>

definition in_index :: "dataframe \<Rightarrow> string \<Rightarrow> bool" where
  "in_index df name = (Some (Str name) \<in> fst ` set (index_rows df))"

definition loc :: "dataframe \<Rightarrow> string \<Rightarrow> (string \<times> val option) list" where
  "loc df name =
     (case map_of (index_rows df) (Some (Str name)) of
        None \<Rightarrow> []
      | Some r \<Rightarrow> map (\<lambda>c. (c, map_of r c)) (columns df))"

section \<open>\<open>deck2df\<close>\<close>

text \<open>
  \<open>deck2df(deck, startdate, welspecs)\<close>: \<open>startdate\<close> is a \<open>datetime.date\<close> or
  \<open>None\<close>. The result is the list of the rows of the returned frame together with what
  was logged, or the way in which the call stopped without a frame.

  An output row is the \<open>rec_dict\<close> of the source: the four fixed keys, and the
  columns of the attribute table for the child when the child is in its index.
\<close>

record row =
  DATE :: "date option"
  CHILD :: string
  PARENT :: string
  TYPE_col :: string
  NETCOLS :: "(string \<times> val option) list"

datatype logmsg =
    NoDateParsed
  | Using_1900_01_01
  | InvalidTSTEP int
  | Advancing int date

type_synonym logging = "(level \<times> logmsg) list"

text \<open>
  The local variables of \<open>deck2df\<close>. \<open>currentedges\<close> is a dictionary from
  (child, parent) to the keyword name; the association list keeps its insertion
  order, and an assignment to a key that is present replaces the value in place.
\<close>

record state =
  date :: "date option"
  gruptreerecords :: "row list"
  grupnetrecords :: "grupnet_data list"
  currentedges :: "((string \<times> string) \<times> string) list"
  grupnet_df :: dataframe
  found_gruptree :: bool
  found_welspecs :: bool
  found_grupnet :: bool
  logged :: logging

type_synonym 'a outcome = "(stop \<times> logging) + 'a"

definition init :: "date option \<Rightarrow> state" where
  "init startdate =
     \<lparr>date = startdate, gruptreerecords = [], grupnetrecords = [], currentedges = [],
      grupnet_df = empty_DataFrame, found_gruptree = False, found_welspecs = False,
      found_grupnet = False, logged = []\<rparr>"

text \<open>Lines 90-99 and 163-172: one \<open>rec_dict\<close> per item of \<open>currentedges\<close>.\<close>

definition rec_dict :: "state \<Rightarrow> (string \<times> string) \<Rightarrow> string \<Rightarrow> row" where
  "rec_dict s edgename value =
     \<lparr>DATE = date s, CHILD = fst edgename, PARENT = snd edgename, TYPE_col = value,
      NETCOLS = (if in_index (grupnet_df s) (fst edgename)
                 then loc (grupnet_df s) (fst edgename) else [])\<rparr>"

definition store_edges :: "state \<Rightarrow> state" where
  "store_edges s =
     s\<lparr>gruptreerecords :=
         gruptreerecords s @ map (\<lambda>(edgename, value). rec_dict s edgename value) (currentedges s)\<rparr>"

text \<open>Lines 82-102: the dump at a date-advancing keyword.\<close>

definition dump :: "state \<Rightarrow> state" where
  "dump s =
     (if currentedges s \<noteq> [] \<and> (found_gruptree s \<or> found_welspecs s \<or> found_grupnet s)
      then
        let s1 = (if date s = None
                  then s\<lparr>logged := logged s @ [(WARNING, NoDateParsed), (WARNING, Using_1900_01_01)],
                         date := Some date_1900_01_01\<rparr>
                  else s)
        in (store_edges s1)\<lparr>found_gruptree := False, found_welspecs := False,
                            found_grupnet := False\<rparr>
      else s)"

text \<open>
  Lines 105-112: every record of \<open>DATES\<close> or \<open>START\<close> sets the date. The month parser
  \<open>parse_ecl_month\<close> belongs to another module and is a parameter; \<open>None\<close> stands for
  its raising an exception.
\<close>

fun parse_dates :: "(string \<Rightarrow> int option) \<Rightarrow> state \<Rightarrow> dates_rec list \<Rightarrow> state outcome" where
  "parse_dates parse_ecl_month s [] = Inr s"
| "parse_dates parse_ecl_month s (rec # recs) =
     (case parse_ecl_month (MONTH rec) of
        None \<Rightarrow> Inl (Exception MonthParseError, logged s)
      | Some month \<Rightarrow>
          (case datetime_date (YEAR rec) month (DAY rec) of
             Inl e \<Rightarrow> Inl (Exception e, logged s)
           | Inr d \<Rightarrow> parse_dates parse_ecl_month (s\<lparr>date := Some d\<rparr>) recs))"

text \<open>Lines 113-128: every record of \<open>TSTEP\<close> advances the date by the sum of its steps.\<close>

fun advance_tstep :: "state \<Rightarrow> int list list \<Rightarrow> state outcome" where
  "advance_tstep s [] = Inr s"
| "advance_tstep s (steplist # recs) =
     (let days = sum_list steplist
      in if days \<le> 0 then Inl (ReturnNone, logged s @ [(CRITICAL, InvalidTSTEP days)])
         else if \<not> timedelta_ok days then Inl (Exception OverflowError, logged s)
         else (case date s of
                 None \<Rightarrow> Inl (Exception TypeError, logged s)
               | Some d \<Rightarrow>
                   (case date_add d days of
                      Inl e \<Rightarrow> Inl (Exception e, logged s)
                    | Inr d' \<Rightarrow>
                        advance_tstep
                          (s\<lparr>date := Some d', logged := logged s @ [(INFO, Advancing days d')]\<rparr>)
                          recs)))"

text \<open>Lines 134-137 and 140-143: \<open>currentedges[(child, parent)] = value\<close> for every record.\<close>

fun record_edges ::
  "string \<Rightarrow> (string \<times> string) list \<Rightarrow> ((string \<times> string) \<times> string) list
    \<Rightarrow> ((string \<times> string) \<times> string) list" where
  "record_edges value [] edges = edges"
| "record_edges value (edgerec # recs) edges =
     record_edges value recs (AList.update edgerec value edges)"

text \<open>
  Lines 147-153: the dictionary built from one \<open>GRUPNET\<close> record. A key is taken when
  the item is there and not empty; a \<open>ValueError\<close> on the access is swallowed.
\<close>

definition grupnet_data_of :: "grupnet_rec \<Rightarrow> grupnet_data" where
  "grupnet_data_of rec =
     List.map_filter
       (\<lambda>rec_key. case map_of rec rec_key of
                    None \<Rightarrow> None
                  | Some [] \<Rightarrow> None
                  | Some (v # _) \<Rightarrow> Some (rec_key, v))
       GRUPNETKEYS"

text \<open>The body of the loop over the keywords (lines 76-159).\<close>

fun step :: "(string \<Rightarrow> int option) \<Rightarrow> bool \<Rightarrow> state \<Rightarrow> keyword \<Rightarrow> state outcome" where
  "step parse_ecl_month welspecs s (DATES recs) = parse_dates parse_ecl_month (dump s) recs"
| "step parse_ecl_month welspecs s (START recs) = parse_dates parse_ecl_month (dump s) recs"
| "step parse_ecl_month welspecs s (TSTEP recs) = advance_tstep (dump s) recs"
| "step parse_ecl_month welspecs s (GRUPTREE recs) =
     Inr (s\<lparr>found_gruptree := True,
            currentedges := record_edges ''GRUPTREE'' recs (currentedges s)\<rparr>)"
| "step parse_ecl_month welspecs s (WELSPECS recs) =
     (if welspecs
      then Inr (s\<lparr>found_welspecs := True,
                  currentedges := record_edges ''WELSPECS'' recs (currentedges s)\<rparr>)
      else Inr s)"
| "step parse_ecl_month welspecs s (GRUPNET recs) =
     (let records = grupnetrecords s @ map grupnet_data_of recs
      in case build_grupnet_df records of
           Inl e \<Rightarrow> Inl (Exception e, logged s)
         | Inr df \<Rightarrow> Inr (s\<lparr>found_grupnet := True, grupnetrecords := records,
                             grupnet_df := df\<rparr>))"
| "step parse_ecl_month welspecs s (OTHER name) = Inr s"

fun scan :: "(string \<Rightarrow> int option) \<Rightarrow> bool \<Rightarrow> state \<Rightarrow> keyword list \<Rightarrow> state outcome" where
  "scan parse_ecl_month welspecs s [] = Inr s"
| "scan parse_ecl_month welspecs s (kw # deck) =
     (case step parse_ecl_month welspecs s kw of
        Inl e \<Rightarrow> Inl e
      | Inr s' \<Rightarrow> scan parse_ecl_month welspecs s' deck)"

text \<open>Lines 161-177: the dump after the last keyword, and the returned table.\<close>

definition final_dump :: "state \<Rightarrow> state" where
  "final_dump s = (if found_gruptree s \<or> found_welspecs s then store_edges s else s)"

definition deck2df ::
  "(string \<Rightarrow> int option) \<Rightarrow> keyword list \<Rightarrow> date option \<Rightarrow> bool \<Rightarrow> (row list \<times> logging) outcome" where
  "deck2df parse_ecl_month deck startdate welspecs =
     (case scan parse_ecl_month welspecs (init startdate) deck of
        Inl e \<Rightarrow> Inl e
      | Inr s \<Rightarrow>
          (let s' = final_dump s
           in if list_all (\<lambda>r. timestamp_ok (DATE r)) (gruptreerecords s')
              then Inr (gruptreerecords s', logged s')
              else Inl (Exception OutOfBoundsDatetime, logged s')))"


text \<open>
  A month table for the concrete decks evaluated below. The theorems hold for every
  \<open>parse_ecl_month\<close>; a concrete deck needs one.
\<close>

definition ecl_months :: "string \<Rightarrow> int option" where
  "ecl_months = map_of [(''JAN'', 1), (''FEB'', 2), (''MAR'', 3), (''APR'', 4), (''MAY'', 5),
     (''JUN'', 6), (''JUL'', 7), (''AUG'', 8), (''SEP'', 9), (''OCT'', 10), (''NOV'', 11),
     (''DEC'', 12)]"

section \<open>\<open>gruptreedf2dict\<close>\<close>

text \<open>
  \<open>subtrees\<close> is a \<open>defaultdict(dict)\<close>: reading a key that is missing creates an empty
  dictionary object for it. The objects are shared: \<open>subtrees[parent][child] =
  subtrees[child]\<close> stores a reference to the child's object, which later assignments
  still fill. So the objects live in a heap. No key of \<open>subtrees\<close> is ever bound to
  another object, hence the object created for a key is addressed by that key; a
  dictionary object maps a child name to the address of the child's object.
\<close>

type_synonym addr = string
type_synonym dictobj = "(string \<times> addr) list"
type_synonym heap = "(addr \<times> dictobj) list"

definition getitem_default :: "heap \<Rightarrow> string \<Rightarrow> heap" where
  "getitem_default h key = (case map_of h key of None \<Rightarrow> h @ [(key, [])] | Some _ \<Rightarrow> h)"

text \<open>Line 236; the right-hand side is evaluated first.\<close>

definition add_edge :: "heap \<Rightarrow> string \<times> string \<Rightarrow> heap" where
  "add_edge h edge =
     (case edge of (child, parent) \<Rightarrow>
        let h1 = getitem_default h child;
            h2 = getitem_default h1 parent
        in AList.map_entry parent (AList.update child child) h2)"

fun fill_subtrees :: "(string \<times> string) list \<Rightarrow> heap \<Rightarrow> heap" where
  "fill_subtrees [] h = h"
| "fill_subtrees (edge # edges) h = fill_subtrees edges (add_edge h edge)"

text \<open>
  The result is the empty dictionary for an empty frame, and otherwise the list
  \<open>trees\<close>, whose dictionaries refer to objects of the heap. The roots are a Python set;
  they are listed here without duplicates in the order of the rows. In line 242 the
  comprehension runs over all roots, for every root of the outer loop.
\<close>

datatype forest = EmptyDict | Trees "dictobj list" heap

definition gruptreedf2dict :: "row list \<Rightarrow> forest" where
  "gruptreedf2dict df =
     (if df = [] then EmptyDict
      else
        let edges = map (\<lambda>row. (CHILD row, PARENT row)) df;
            subtrees = fill_subtrees edges [];
            children = map fst edges;
            parents = map snd edges;
            roots = filter (\<lambda>p. p \<notin> set children) (remdups parents);
            trees = map (\<lambda>_. map (\<lambda>root. (root, root)) roots) roots
        in Trees trees subtrees)"

section \<open>Notions used to state the properties\<close>

text \<open>The test of line 76, the three flags taken together, and the date of a snapshot.\<close>

definition date_advancing :: "keyword \<Rightarrow> bool" where
  "date_advancing kw =
     (case kw of DATES _ \<Rightarrow> True | START _ \<Rightarrow> True | TSTEP _ \<Rightarrow> True | _ \<Rightarrow> False)"

definition pending :: "state \<Rightarrow> bool" where
  "pending s = (found_gruptree s \<or> found_welspecs s \<or> found_grupnet s)"

definition edge_item :: "row \<Rightarrow> (string \<times> string) \<times> string" where
  "edge_item r = ((CHILD r, PARENT r), TYPE_col r)"

definition stamp :: "state \<Rightarrow> date" where
  "stamp s = (case date s of None \<Rightarrow> date_1900_01_01 | Some d \<Rightarrow> d)"

text \<open>
  The row expected for an item of the edge accumulator at date \<open>d\<close>: the edge, its
  tag, and what the attribute table holds for the child, if it holds anything.
\<close>

definition snapshot_row :: "date \<Rightarrow> dataframe \<Rightarrow> (string \<times> string) \<times> string \<Rightarrow> row" where
  "snapshot_row d df item =
     \<lparr>DATE = Some d, CHILD = fst (fst item), PARENT = snd (fst item), TYPE_col = snd item,
      NETCOLS = (case map_of (index_rows df) (Some (Str (fst (fst item)))) of
                   None \<Rightarrow> []
                 | Some r \<Rightarrow> map (\<lambda>c. (c, map_of r c)) (columns df))\<rparr>"

text \<open>
  Reading a nested dictionary back: \<open>nested h trees name a\<close> holds when the structure
  under \<open>trees\<close> has a node \<open>name\<close> whose dictionary of children is the object at
  \<open>a\<close>; every key of such a dictionary gives a (child, parent) pair.
\<close>

inductive nested :: "heap \<Rightarrow> dictobj list \<Rightarrow> string \<Rightarrow> addr \<Rightarrow> bool"
  for h :: heap and trees :: "dictobj list" where
  top: "t \<in> set trees \<Longrightarrow> map_of t name = Some a \<Longrightarrow> nested h trees name a"
| sub: "nested h trees name a \<Longrightarrow> map_of h a = Some d \<Longrightarrow> map_of d k = Some a'
        \<Longrightarrow> nested h trees k a'"

definition forest_edges :: "forest \<Rightarrow> (string \<times> string) set" where
  "forest_edges f =
     (case f of
        EmptyDict \<Rightarrow> {}
      | Trees trees h \<Rightarrow>
          {(child, parent). \<exists>a d a'. nested h trees parent a \<and> map_of h a = Some d
                                     \<and> map_of d child = Some a'})"

text \<open>
  The record that \<open>keep="last"\<close> selects for a name from a list of records.
\<close>

definition last_record :: "val option \<Rightarrow> grupnet_data list \<Rightarrow> grupnet_data option" where
  "last_record name recs =
     (case filter (\<lambda>r. map_of r ''NAME'' = name) recs of
        [] \<Rightarrow> None
      | r # rs \<Rightarrow> Some (last (r # rs)))"

text \<open>
  The clock is never set back along a scan: no \<open>DATES\<close> or \<open>START\<close> keyword leaves a date
  that is earlier than the date that was current when its records were read (after the
  dump of that keyword, which may have put the fallback date in place).
\<close>

definition date_setting :: "keyword \<Rightarrow> bool" where
  "date_setting kw = (case kw of DATES _ \<Rightarrow> True | START _ \<Rightarrow> True | _ \<Rightarrow> False)"

fun not_earlier :: "date option \<Rightarrow> date option \<Rightarrow> bool" where
  "not_earlier (Some d) (Some d') = (d \<le> d')"
| "not_earlier _ _ = True"

fun clock_never_set_back ::
  "(string \<Rightarrow> int option) \<Rightarrow> bool \<Rightarrow> state \<Rightarrow> keyword list \<Rightarrow> bool" where
  "clock_never_set_back parse_ecl_month welspecs s [] = True"
| "clock_never_set_back parse_ecl_month welspecs s (kw # deck) =
     (case step parse_ecl_month welspecs s kw of
        Inl e \<Rightarrow> True
      | Inr s' \<Rightarrow>
          (if date_setting kw then not_earlier (date (dump s)) (date s') else True)
          \<and> clock_never_set_back parse_ecl_month welspecs s' deck)"

text \<open>
  The rows written so far are all dated, in non-decreasing order, and none is later
  than the current date.
\<close>

definition dated_up_to :: "row list \<Rightarrow> date option \<Rightarrow> bool" where
  "dated_up_to rows now =
     (\<exists>ds. map DATE rows = map Some ds \<and> sorted ds
          \<and> (\<forall>d \<in> set ds. case now of None \<Rightarrow> False | Some dc \<Rightarrow> d \<le> dc))"

text \<open>
  What the dictionary object at an address holds under a key (nothing when there is no
  such object), and the roots of line 239: the parents that are no child.
\<close>

definition child_ref :: "heap \<Rightarrow> addr \<Rightarrow> string \<Rightarrow> addr option" where
  "child_ref h a k = (case map_of h a of None \<Rightarrow> None | Some d \<Rightarrow> map_of d k)"

definition root_names :: "(string \<times> string) list \<Rightarrow> string list" where
  "root_names edges = filter (\<lambda>p. p \<notin> set (map fst edges)) (remdups (map snd edges))"

section \<open>Properties of the scan\<close>

lemma parse_dates_frame:
  "parse_dates pem s recs = Inr s' \<Longrightarrow> s' = s\<lparr>date := date s', logged := logged s'\<rparr>"
proof (induction recs arbitrary: s)
  case Nil
  then show ?case by simp
next
  case (Cons r recs)
  then show ?case
    by (fastforce split: option.splits sum.splits)
qed

lemma advance_tstep_frame:
  "advance_tstep s recs = Inr s' \<Longrightarrow> s' = s\<lparr>date := date s', logged := logged s'\<rparr>"
proof (induction recs arbitrary: s)
  case Nil
  then show ?case by simp
next
  case (Cons r recs)
  then show ?case
    by (fastforce simp: Let_def split: option.splits sum.splits if_splits)
qed

lemma date_step_frame:
  assumes "date_advancing kw" and "step pem w s kw = Inr s'"
  shows "s' = (dump s)\<lparr>date := date s', logged := logged s'\<rparr>"
  using assms
  by (cases kw) (simp_all add: date_advancing_def parse_dates_frame advance_tstep_frame)

lemma in_index_map_of:
  "in_index df name \<longleftrightarrow> map_of (index_rows df) (Some (Str name)) \<noteq> None"
  by (simp add: in_index_def map_of_eq_None_iff)

lemma rec_dict_snapshot_row:
  "date s = Some d \<Longrightarrow> rec_dict s edgename value = snapshot_row d (grupnet_df s) (edgename, value)"
  by (auto simp: rec_dict_def snapshot_row_def in_index_map_of loc_def split: option.splits)

lemma dump_due:
  assumes "currentedges s \<noteq> []" and "pending s"
  shows "gruptreerecords (dump s) =
           gruptreerecords s @ map (snapshot_row (stamp s) (grupnet_df s)) (currentedges s)"
    and "\<not> pending (dump s)"
    and "date (dump s) = Some (stamp s)"
  using assms
  by (auto simp: dump_def pending_def stamp_def store_edges_def Let_def rec_dict_snapshot_row)

lemma dump_not_due:
  "currentedges s = [] \<or> \<not> pending s \<Longrightarrow> dump s = s"
  by (auto simp: dump_def pending_def)

lemma dump_keeps:
  "currentedges (dump s) = currentedges s"
  "grupnet_df (dump s) = grupnet_df s"
  "grupnetrecords (dump s) = grupnetrecords s"
  by (simp_all add: dump_def store_edges_def Let_def)

lemma map_of_record_edges:
  "map_of (record_edges value recs edges) e = (if e \<in> set recs then Some value else map_of edges e)"
  by (induction recs arbitrary: edges) (auto simp: update_conv')

lemma edge_item_snapshot_row: "map (edge_item \<circ> snapshot_row d df) items = items"
  by (induction items) (simp_all add: edge_item_def snapshot_row_def)

lemma edge_item_rec_dict:
  "map (edge_item \<circ> (\<lambda>(edgename, value). rec_dict s edgename value)) items = items"
  by (induction items) (auto simp: edge_item_def rec_dict_def)

lemma dump_rows:
  "\<exists>new. gruptreerecords (dump s) = gruptreerecords s @ new
         \<and> (new = [] \<or> map edge_item new = currentedges s)"
proof (cases "currentedges s \<noteq> [] \<and> pending s")
  case True
  then show ?thesis
    using dump_due(1)[of s] by (simp add: edge_item_snapshot_row)
next
  case False
  then have "dump s = s" by (auto intro: dump_not_due)
  then show ?thesis by simp
qed

lemma final_dump_rows:
  "\<exists>new. gruptreerecords (final_dump s) = gruptreerecords s @ new
         \<and> (new = [] \<or> map edge_item new = currentedges s)"
  by (simp add: final_dump_def store_edges_def edge_item_rec_dict)

lemma step_edges:
  assumes "step pem w s kw = Inr s'"
  shows "map_of (currentedges s') e =
     (if (\<exists>recs. kw = GRUPTREE recs \<and> e \<in> set recs) then Some ''GRUPTREE''
      else if (\<exists>recs. kw = WELSPECS recs \<and> w \<and> e \<in> set recs) then Some ''WELSPECS''
      else map_of (currentedges s) e)"
proof (cases "date_advancing kw")
  case True
  from date_step_frame[OF True assms] have "currentedges s' = currentedges (dump s)"
    by (metis state.select_convs(4) state.surjective state.update_convs(1,9))
  with True show ?thesis by (auto simp: dump_keeps date_advancing_def)
next
  case False
  with assms show ?thesis
    by (cases kw) (auto simp: date_advancing_def map_of_record_edges Let_def split: if_splits sum.splits)
qed

lemma step_rows:
  assumes "step pem w s kw = Inr s'"
  shows "\<exists>new. gruptreerecords s' = gruptreerecords s @ new
         \<and> (new = [] \<or> map edge_item new = currentedges s)"
proof (cases "date_advancing kw")
  case True
  from date_step_frame[OF True assms] have "gruptreerecords s' = gruptreerecords (dump s)"
    by (metis state.select_convs(2) state.surjective state.update_convs(1,9))
  then show ?thesis using dump_rows[of s] by simp
next
  case False
  with assms have "gruptreerecords s' = gruptreerecords s"
    by (cases kw) (auto simp: date_advancing_def Let_def split: if_splits sum.splits)
  then show ?thesis by simp
qed

text \<open>Unfolding rules for evaluating the scan on a concrete deck.\<close>

lemmas date_defs = ymd2ord_def days_before_year_def days_before_month_def days_in_month_def
  is_leap_def datetime_date_def date_add_def MAXORDINAL_def timedelta_ok_def
  date_1900_01_01_def timestamp_ok_def

lemmas table_defs = build_grupnet_df_def has_key_def grupnet_data_of_def GRUPNETKEYS_def
  in_index_def loc_def empty_DataFrame_def List.map_filter_def

lemmas scan_defs = deck2df_def init_def dump_def store_edges_def rec_dict_def final_dump_def
  ecl_months_def

subsection \<open>The snapshot at a date-advancing keyword\<close>

text \<open>
  C1, as amended. When \<open>DATES\<close>, \<open>START\<close> or \<open>TSTEP\<close> is met with a non-empty edge
  accumulator and one of the three changed flags set, and the keyword's own date change
  goes through, then exactly one row per item of the accumulator has been appended, in
  the accumulator's order; each row carries the edge, its tag, the attribute table's
  current row for the child (nothing when the child is not in the table), and the date
  that was current before the keyword (1900-01-01 when there was none); the three flags
  are down afterwards, and the accumulator and the table are as before.
\<close>

theorem date_keyword_snapshot:
  assumes "date_advancing kw"
    and "currentedges s \<noteq> []"
    and "found_gruptree s \<or> found_welspecs s \<or> found_grupnet s"
    and "step parse_ecl_month welspecs s kw = Inr s'"
  shows "gruptreerecords s' =
           gruptreerecords s @ map (snapshot_row (stamp s) (grupnet_df s)) (currentedges s)
       \<and> \<not> found_gruptree s' \<and> \<not> found_welspecs s' \<and> \<not> found_grupnet s'
       \<and> currentedges s' = currentedges s \<and> grupnet_df s' = grupnet_df s"
proof -
  have p: "pending s" using assms(3) by (simp add: pending_def)
  have fr: "s' = (dump s)\<lparr>date := date s', logged := logged s'\<rparr>"
    using assms(1,4) by (rule date_step_frame)
  have rows: "gruptreerecords s' = gruptreerecords (dump s)"
    and fl: "found_gruptree s' = found_gruptree (dump s)"
      "found_welspecs s' = found_welspecs (dump s)"
      "found_grupnet s' = found_grupnet (dump s)"
    and ke: "currentedges s' = currentedges (dump s)" "grupnet_df s' = grupnet_df (dump s)"
    by (subst fr, simp)+
  from dump_due(2)[OF assms(2) p] have "\<not> found_gruptree (dump s) \<and> \<not> found_welspecs (dump s) \<and> \<not> found_grupnet (dump s)"
    by (simp add: pending_def)
  with rows fl ke dump_due(1)[OF assms(2) p] show ?thesis
    by (simp add: dump_keeps)
qed

theorem date_keyword_snapshot_witness:
  "date_advancing (DATES [\<lparr>DAY = 1, MONTH = ''FEB'', YEAR = 2020\<rparr>])
   \<and> currentedges ((init (Some (ymd2ord 2020 1 1)))
         \<lparr>currentedges := [((''W1'', ''GRP1''), ''WELSPECS'')],
          grupnet_df := \<lparr>columns = [''ALQ''],
                         index_rows = [(Some (Str ''W1''), [(''NAME'', Str ''W1''), (''ALQ'', Num 5)])]\<rparr>,
          found_welspecs := True\<rparr>) \<noteq> []
   \<and> step ecl_months True
        ((init (Some (ymd2ord 2020 1 1)))
         \<lparr>currentedges := [((''W1'', ''GRP1''), ''WELSPECS'')],
          grupnet_df := \<lparr>columns = [''ALQ''],
                         index_rows = [(Some (Str ''W1''), [(''NAME'', Str ''W1''), (''ALQ'', Num 5)])]\<rparr>,
          found_welspecs := True\<rparr>)
        (DATES [\<lparr>DAY = 1, MONTH = ''FEB'', YEAR = 2020\<rparr>])
      = Inr ((init (Some (ymd2ord 2020 2 1)))
         \<lparr>gruptreerecords := [\<lparr>DATE = Some (ymd2ord 2020 1 1), CHILD = ''W1'', PARENT = ''GRP1'',
                                TYPE_col = ''WELSPECS'', NETCOLS = [(''ALQ'', Some (Num 5))]\<rparr>],
          currentedges := [((''W1'', ''GRP1''), ''WELSPECS'')],
          grupnet_df := \<lparr>columns = [''ALQ''],
                         index_rows = [(Some (Str ''W1''), [(''NAME'', Str ''W1''), (''ALQ'', Num 5)])]\<rparr>\<rparr>)
   \<and> gruptreerecords ((init (Some (ymd2ord 2020 2 1)))
         \<lparr>gruptreerecords := [\<lparr>DATE = Some (ymd2ord 2020 1 1), CHILD = ''W1'', PARENT = ''GRP1'',
                                TYPE_col = ''WELSPECS'', NETCOLS = [(''ALQ'', Some (Num 5))]\<rparr>],
          currentedges := [((''W1'', ''GRP1''), ''WELSPECS'')],
          grupnet_df := \<lparr>columns = [''ALQ''],
                         index_rows = [(Some (Str ''W1''), [(''NAME'', Str ''W1''), (''ALQ'', Num 5)])]\<rparr>\<rparr>)
      = [snapshot_row (ymd2ord 2020 1 1)
           \<lparr>columns = [''ALQ''],
            index_rows = [(Some (Str ''W1''), [(''NAME'', Str ''W1''), (''ALQ'', Num 5)])]\<rparr>
           ((''W1'', ''GRP1''), ''WELSPECS'')]"
proof -
  let ?kw = "DATES [\<lparr>DAY = 1, MONTH = ''FEB'', YEAR = 2020\<rparr>]"
  let ?df = "\<lparr>columns = [''ALQ''],
              index_rows = [(Some (Str ''W1''), [(''NAME'', Str ''W1''), (''ALQ'', Num 5)])]\<rparr>"
  let ?s = "(init (Some (ymd2ord 2020 1 1)))
         \<lparr>currentedges := [((''W1'', ''GRP1''), ''WELSPECS'')], grupnet_df := ?df,
          found_welspecs := True\<rparr>"
  let ?s' = "(init (Some (ymd2ord 2020 2 1)))
         \<lparr>gruptreerecords := [\<lparr>DATE = Some (ymd2ord 2020 1 1), CHILD = ''W1'', PARENT = ''GRP1'',
                                TYPE_col = ''WELSPECS'', NETCOLS = [(''ALQ'', Some (Num 5))]\<rparr>],
          currentedges := [((''W1'', ''GRP1''), ''WELSPECS'')], grupnet_df := ?df\<rparr>"
  have h1: "date_advancing ?kw" by (simp add: date_advancing_def)
  have h2: "currentedges ?s \<noteq> []" by simp
  have h3: "found_gruptree ?s \<or> found_welspecs ?s \<or> found_grupnet ?s" by simp
  have h4: "step ecl_months True ?s ?kw = Inr ?s'"
    by (simp add: scan_defs date_defs table_defs)
  from date_keyword_snapshot[OF h1 h2 h3 h4] have "gruptreerecords ?s' =
      gruptreerecords ?s @ map (snapshot_row (stamp ?s) (grupnet_df ?s)) (currentedges ?s)"
    by blast
  then have "gruptreerecords ?s' = [snapshot_row (ymd2ord 2020 1 1) ?df ((''W1'', ''GRP1''), ''WELSPECS'')]"
    by (simp add: init_def stamp_def)
  with h1 h2 h4 show ?thesis by blast
qed

text \<open>
  The claim as first stated, without the condition on the accumulator, fails: after a
  \<open>GRUPNET\<close> block and then \<open>DATES\<close>, with no edge recorded, \<open>found_grupnet\<close> is still set
  (and no row was written).
\<close>

theorem flags_kept_counterexample:
  "scan ecl_months True (init None)
     [GRUPNET [[(''NAME'', [Str ''GRP1'']), (''ALQ'', [Num 5])]],
      DATES [\<lparr>DAY = 1, MONTH = ''FEB'', YEAR = 2020\<rparr>]]
   = Inr ((init (Some (ymd2ord 2020 2 1)))
       \<lparr>grupnetrecords := [[(''NAME'', Str ''GRP1''), (''ALQ'', Num 5)]],
        grupnet_df := \<lparr>columns = [''ALQ''],
                       index_rows = [(Some (Str ''GRP1''), [(''NAME'', Str ''GRP1''), (''ALQ'', Num 5)])]\<rparr>,
        found_grupnet := True\<rparr>)"
  by (simp add: scan_defs date_defs table_defs)

subsection \<open>The edge accumulator\<close>

text \<open>
  C6. The accumulator is keyed on the pair (child, parent). After any keyword, the entry
  of a pair is the keyword's tag when the keyword records exactly that pair, and is what
  it was otherwise; so no entry disappears, and the entry of a child under its old parent
  stays, with its old tag, when the child is recorded under another parent. The rows a
  keyword appends, and the rows the final dump appends, are none or one row per item of
  the whole accumulator, in its order.
\<close>

theorem edge_accumulator_keyed_on_pair:
  assumes "step parse_ecl_month welspecs s kw = Inr s'"
  shows "(\<forall>e. map_of (currentedges s') e =
           (if (\<exists>recs. kw = GRUPTREE recs \<and> e \<in> set recs) then Some ''GRUPTREE''
            else if (\<exists>recs. kw = WELSPECS recs \<and> welspecs \<and> e \<in> set recs) then Some ''WELSPECS''
            else map_of (currentedges s) e))
       \<and> fst ` set (currentedges s) \<subseteq> fst ` set (currentedges s')
       \<and> (\<exists>new. gruptreerecords s' = gruptreerecords s @ new
                \<and> (new = [] \<or> map edge_item new = currentedges s))
       \<and> (\<exists>new. gruptreerecords (final_dump s') = gruptreerecords s' @ new
                \<and> (new = [] \<or> map edge_item new = currentedges s'))"
proof -
  have m: "\<And>e. map_of (currentedges s') e =
           (if (\<exists>recs. kw = GRUPTREE recs \<and> e \<in> set recs) then Some ''GRUPTREE''
            else if (\<exists>recs. kw = WELSPECS recs \<and> welspecs \<and> e \<in> set recs) then Some ''WELSPECS''
            else map_of (currentedges s) e)"
    using assms by (rule step_edges)
  have "dom (map_of (currentedges s)) \<subseteq> dom (map_of (currentedges s'))"
  proof
    fix e assume "e \<in> dom (map_of (currentedges s))"
    then show "e \<in> dom (map_of (currentedges s'))"
      using m[of e] by (auto simp: dom_def)
  qed
  then have k: "fst ` set (currentedges s) \<subseteq> fst ` set (currentedges s')"
    by (simp add: dom_map_of_conv_image_fst)
  from m k step_rows[OF assms] final_dump_rows[of s'] show ?thesis by blast
qed

theorem edge_accumulator_keyed_on_pair_witness:
  "step ecl_months True
     ((init None)\<lparr>currentedges := [((''W1'', ''G1''), ''WELSPECS'')], found_welspecs := True\<rparr>)
     (GRUPTREE [(''W1'', ''G2'')])
   = Inr ((init None)\<lparr>currentedges := [((''W1'', ''G1''), ''WELSPECS''), ((''W1'', ''G2''), ''GRUPTREE'')],
                        found_gruptree := True, found_welspecs := True\<rparr>)
   \<and> map_of (currentedges ((init None)\<lparr>currentedges := [((''W1'', ''G1''), ''WELSPECS''), ((''W1'', ''G2''), ''GRUPTREE'')],
                        found_gruptree := True, found_welspecs := True\<rparr>)) (''W1'', ''G1'') = Some ''WELSPECS''
   \<and> map_of (currentedges ((init None)\<lparr>currentedges := [((''W1'', ''G1''), ''WELSPECS''), ((''W1'', ''G2''), ''GRUPTREE'')],
                        found_gruptree := True, found_welspecs := True\<rparr>)) (''W1'', ''G2'') = Some ''GRUPTREE''"
proof -
  let ?s = "(init None)\<lparr>currentedges := [((''W1'', ''G1''), ''WELSPECS'')], found_welspecs := True\<rparr>"
  let ?s' = "(init None)\<lparr>currentedges := [((''W1'', ''G1''), ''WELSPECS''), ((''W1'', ''G2''), ''GRUPTREE'')],
                        found_gruptree := True, found_welspecs := True\<rparr>"
  have h: "step ecl_months True ?s (GRUPTREE [(''W1'', ''G2'')]) = Inr ?s'"
    by (simp add: init_def)
  from edge_accumulator_keyed_on_pair[OF h]
  have "\<forall>e. map_of (currentedges ?s') e =
           (if (\<exists>recs. GRUPTREE [(''W1'', ''G2'')] = GRUPTREE recs \<and> e \<in> set recs) then Some ''GRUPTREE''
            else if (\<exists>recs. GRUPTREE [(''W1'', ''G2'')] = WELSPECS recs \<and> True \<and> e \<in> set recs) then Some ''WELSPECS''
            else map_of (currentedges ?s) e)"
    by blast
  then have "map_of (currentedges ?s') (''W1'', ''G1'') = Some ''WELSPECS''"
    and "map_of (currentedges ?s') (''W1'', ''G2'') = Some ''GRUPTREE''"
    by simp_all
  with h show ?thesis by blast
qed

subsection \<open>An empty accumulator defers the snapshot\<close>

lemma other_step_keeps:
  assumes "\<not> date_advancing kw" and "step pem w s kw = Inr s'"
  shows "gruptreerecords s' = gruptreerecords s"
    and "found_gruptree s \<Longrightarrow> found_gruptree s'"
    and "found_welspecs s \<Longrightarrow> found_welspecs s'"
    and "found_grupnet s \<Longrightarrow> found_grupnet s'"
    and "date s' = date s"
  using assms
  by (cases kw; auto simp: date_advancing_def Let_def split: if_splits sum.splits)+

lemma date_step_fields:
  assumes "date_advancing kw" and "step pem w s kw = Inr s'"
  shows "gruptreerecords s' = gruptreerecords (dump s)"
    and "found_gruptree s' = found_gruptree (dump s)"
    and "found_welspecs s' = found_welspecs (dump s)"
    and "found_grupnet s' = found_grupnet (dump s)"
    and "currentedges s' = currentedges s"
    and "grupnet_df s' = grupnet_df s"
proof -
  have fr: "s' = (dump s)\<lparr>date := date s', logged := logged s'\<rparr>"
    using assms by (rule date_step_frame)
  show "gruptreerecords s' = gruptreerecords (dump s)"
    and "found_gruptree s' = found_gruptree (dump s)"
    and "found_welspecs s' = found_welspecs (dump s)"
    and "found_grupnet s' = found_grupnet (dump s)"
    by (subst fr, simp)+
  show "currentedges s' = currentedges s" and "grupnet_df s' = grupnet_df s"
    by (subst fr, simp add: dump_keeps)+
qed

text \<open>
  C10. For a keyword that the scan gets through: a date-advancing keyword met with an
  empty accumulator writes no row and leaves the three flags as they are; rows are
  written only at a date-advancing keyword with a non-empty accumulator; until such a
  keyword, a flag that is set stays set; and at such a keyword, with a flag set, the
  whole accumulator is written, stamped with the date current before the keyword's
  date change (1900-01-01 when there was none), and the flags are cleared.
\<close>

theorem empty_accumulator_defers_snapshot:
  assumes "step parse_ecl_month welspecs s kw = Inr s'"
  shows "(date_advancing kw \<and> currentedges s = [] \<longrightarrow>
            gruptreerecords s' = gruptreerecords s \<and> found_gruptree s' = found_gruptree s
            \<and> found_welspecs s' = found_welspecs s \<and> found_grupnet s' = found_grupnet s)
       \<and> (gruptreerecords s' \<noteq> gruptreerecords s \<longrightarrow> date_advancing kw \<and> currentedges s \<noteq> [])
       \<and> (\<not> (date_advancing kw \<and> currentedges s \<noteq> []) \<longrightarrow>
            (found_gruptree s \<longrightarrow> found_gruptree s') \<and> (found_welspecs s \<longrightarrow> found_welspecs s')
            \<and> (found_grupnet s \<longrightarrow> found_grupnet s'))
       \<and> (date_advancing kw \<and> currentedges s \<noteq> [] \<and> pending s \<longrightarrow>
            gruptreerecords s' =
              gruptreerecords s @ map (snapshot_row (stamp s) (grupnet_df s)) (currentedges s)
            \<and> \<not> pending s')"
proof (cases "date_advancing kw")
  case False
  with other_step_keeps[OF False assms] show ?thesis by simp
next
  case True
  note f = date_step_fields[OF True assms]
  show ?thesis
  proof (cases "currentedges s = []")
    case True
    then have "dump s = s" by (simp add: dump_not_due)
    with f True show ?thesis by simp
  next
    case False
    show ?thesis
    proof (cases "pending s")
      case True
      from dump_due[OF False True] f \<open>date_advancing kw\<close> False show ?thesis
        by (simp add: pending_def)
    next
      case np: False
      then have "dump s = s" by (simp add: dump_not_due)
      with f np \<open>date_advancing kw\<close> False show ?thesis by (simp add: pending_def)
    qed
  qed
qed

theorem empty_accumulator_defers_snapshot_witness:
  "step ecl_months True
     ((init None)
        \<lparr>grupnetrecords := [[(''NAME'', Str ''GRP1''), (''ALQ'', Num 5)]],
         grupnet_df := \<lparr>columns = [''ALQ''],
                        index_rows = [(Some (Str ''GRP1''), [(''NAME'', Str ''GRP1''), (''ALQ'', Num 5)])]\<rparr>,
         found_grupnet := True\<rparr>)
     (DATES [\<lparr>DAY = 1, MONTH = ''JAN'', YEAR = 2020\<rparr>])
   = Inr ((init (Some (ymd2ord 2020 1 1)))
        \<lparr>grupnetrecords := [[(''NAME'', Str ''GRP1''), (''ALQ'', Num 5)]],
         grupnet_df := \<lparr>columns = [''ALQ''],
                        index_rows = [(Some (Str ''GRP1''), [(''NAME'', Str ''GRP1''), (''ALQ'', Num 5)])]\<rparr>,
         found_grupnet := True\<rparr>)
   \<and> step ecl_months True
     ((init (Some (ymd2ord 2020 1 1)))
        \<lparr>grupnetrecords := [[(''NAME'', Str ''GRP1''), (''ALQ'', Num 5)]],
         currentedges := [((''GRP1'', ''FIELD''), ''GRUPTREE'')],
         grupnet_df := \<lparr>columns = [''ALQ''],
                        index_rows = [(Some (Str ''GRP1''), [(''NAME'', Str ''GRP1''), (''ALQ'', Num 5)])]\<rparr>,
         found_gruptree := True, found_grupnet := True\<rparr>)
     (TSTEP [[31]])
   = Inr ((init (Some (ymd2ord 2020 2 1)))
        \<lparr>gruptreerecords := [\<lparr>DATE = Some (ymd2ord 2020 1 1), CHILD = ''GRP1'', PARENT = ''FIELD'',
                               TYPE_col = ''GRUPTREE'', NETCOLS = [(''ALQ'', Some (Num 5))]\<rparr>],
         grupnetrecords := [[(''NAME'', Str ''GRP1''), (''ALQ'', Num 5)]],
         currentedges := [((''GRP1'', ''FIELD''), ''GRUPTREE'')],
         grupnet_df := \<lparr>columns = [''ALQ''],
                        index_rows = [(Some (Str ''GRP1''), [(''NAME'', Str ''GRP1''), (''ALQ'', Num 5)])]\<rparr>,
         logged := [(INFO, Advancing 31 (ymd2ord 2020 2 1))]\<rparr>)"
proof -
  let ?df = "\<lparr>columns = [''ALQ''],
              index_rows = [(Some (Str ''GRP1''), [(''NAME'', Str ''GRP1''), (''ALQ'', Num 5)])]\<rparr>"
  let ?recs = "[[(''NAME'', Str ''GRP1''), (''ALQ'', Num 5)]]"
  let ?s0 = "(init None)\<lparr>grupnetrecords := ?recs, grupnet_df := ?df, found_grupnet := True\<rparr>"
  let ?s1 = "(init (Some (ymd2ord 2020 1 1)))
               \<lparr>grupnetrecords := ?recs, grupnet_df := ?df, found_grupnet := True\<rparr>"
  let ?s2 = "(init (Some (ymd2ord 2020 1 1)))
               \<lparr>grupnetrecords := ?recs, currentedges := [((''GRP1'', ''FIELD''), ''GRUPTREE'')],
                grupnet_df := ?df, found_gruptree := True, found_grupnet := True\<rparr>"
  define s3 where "s3 = (dump ?s2)\<lparr>date := Some (ymd2ord 2020 2 1),
      logged := [(INFO, Advancing 31 (ymd2ord 2020 2 1))]\<rparr>"
  have h1: "step ecl_months True ?s0 (DATES [\<lparr>DAY = 1, MONTH = ''JAN'', YEAR = 2020\<rparr>]) = Inr ?s1"
    by (simp add: scan_defs date_defs table_defs)
  have h2: "step ecl_months True ?s2 (TSTEP [[31]]) = Inr s3"
    by (simp add: s3_def scan_defs date_defs table_defs)
  have e1: "date_advancing (DATES [\<lparr>DAY = 1, MONTH = ''JAN'', YEAR = 2020\<rparr>]) \<and> currentedges ?s0 = []"
    by (simp add: date_advancing_def init_def)
  have e2: "date_advancing (TSTEP [[31]]) \<and> currentedges ?s2 \<noteq> [] \<and> pending ?s2"
    by (simp add: date_advancing_def init_def pending_def)
  from empty_accumulator_defers_snapshot[OF h1] e1
  have "found_grupnet ?s1 = found_grupnet ?s0" by blast
  from empty_accumulator_defers_snapshot[OF h2] e2
  have r: "gruptreerecords s3 = gruptreerecords ?s2 @
         map (snapshot_row (stamp ?s2) (grupnet_df ?s2)) (currentedges ?s2)"
    and p: "\<not> pending s3"
    by blast+
  have "s3 = s3\<lparr>gruptreerecords := gruptreerecords s3, found_gruptree := found_gruptree s3,
      found_welspecs := found_welspecs s3, found_grupnet := found_grupnet s3\<rparr>"
    by simp
  also have "\<dots> = (init (Some (ymd2ord 2020 2 1)))
        \<lparr>gruptreerecords := [\<lparr>DATE = Some (ymd2ord 2020 1 1), CHILD = ''GRP1'', PARENT = ''FIELD'',
                               TYPE_col = ''GRUPTREE'', NETCOLS = [(''ALQ'', Some (Num 5))]\<rparr>],
         grupnetrecords := ?recs,
         currentedges := [((''GRP1'', ''FIELD''), ''GRUPTREE'')],
         grupnet_df := ?df,
         logged := [(INFO, Advancing 31 (ymd2ord 2020 2 1))]\<rparr>"
    using p unfolding r
    by (simp add: s3_def pending_def init_def stamp_def snapshot_row_def dump_def store_edges_def)
  finally show ?thesis using h1 h2 by simp
qed

subsection \<open>A \<open>TSTEP\<close> that does not advance\<close>

lemma scan_append:
  "scan pem w s (pre @ post) =
     (case scan pem w s pre of Inl e \<Rightarrow> Inl e | Inr s' \<Rightarrow> scan pem w s' post)"
  by (induction pre arbitrary: s) (auto split: sum.splits)

lemma advance_tstep_append:
  "advance_tstep s (recs1 @ recs2) =
     (case advance_tstep s recs1 of Inl e \<Rightarrow> Inl e | Inr s1 \<Rightarrow> advance_tstep s1 recs2)"
  by (induction recs1 arbitrary: s) (auto simp: Let_def split: sum.splits option.splits)

lemma advance_tstep_nonpositive:
  "sum_list steplist \<le> 0 \<Longrightarrow>
     advance_tstep s (steplist # recs) =
       Inl (ReturnNone, logged s @ [(CRITICAL, InvalidTSTEP (sum_list steplist))])"
  by simp

text \<open>
  C3, as amended. A deck with a \<open>TSTEP\<close> record whose steps sum to zero or less never
  yields a table, whatever comes before and after. When the scan reaches that record
  (nothing before it has raised an exception or returned), \<open>deck2df\<close> returns \<open>None\<close>,
  and the last message logged is the critical one with that sum; rows collected for
  edges defined earlier are dropped with everything else.
\<close>

theorem nonpositive_tstep_aborts:
  assumes "sum_list steplist \<le> 0"
  shows "(\<forall>out. deck2df parse_ecl_month (pre @ TSTEP (recs1 @ steplist # recs2) # post)
                  startdate welspecs \<noteq> Inr out)
       \<and> (\<forall>s s1. scan parse_ecl_month welspecs (init startdate) pre = Inr s
                 \<and> advance_tstep (dump s) recs1 = Inr s1 \<longrightarrow>
             deck2df parse_ecl_month (pre @ TSTEP (recs1 @ steplist # recs2) # post)
                 startdate welspecs
             = Inl (ReturnNone, logged s1 @ [(CRITICAL, InvalidTSTEP (sum_list steplist))]))"
proof -
  let ?kw = "TSTEP (recs1 @ steplist # recs2)"
  let ?deck = "pre @ ?kw # post"
  have reached: "scan parse_ecl_month welspecs (init startdate) ?deck
        = Inl (ReturnNone, logged s1 @ [(CRITICAL, InvalidTSTEP (sum_list steplist))])"
    if "scan parse_ecl_month welspecs (init startdate) pre = Inr s"
      and "advance_tstep (dump s) recs1 = Inr s1" for s s1
    using that assms by (simp add: scan_append advance_tstep_append)
  have stopped: "\<exists>e. scan parse_ecl_month welspecs (init startdate) ?deck = Inl e"
  proof (cases "scan parse_ecl_month welspecs (init startdate) pre")
    case (Inl e)
    then show ?thesis by (simp add: scan_append)
  next
    case (Inr s)
    show ?thesis
    proof (cases "advance_tstep (dump s) recs1")
      case (Inl e)
      with Inr show ?thesis by (simp add: scan_append advance_tstep_append)
    next
      case (Inr s1)
      with reached[OF \<open>scan parse_ecl_month welspecs (init startdate) pre = Inr s\<close> Inr]
      show ?thesis by blast
    qed
  qed
  from stopped have "\<forall>out. deck2df parse_ecl_month ?deck startdate welspecs \<noteq> Inr out"
    by (auto simp: deck2df_def)
  moreover from reached
  have "\<forall>s s1. scan parse_ecl_month welspecs (init startdate) pre = Inr s
                 \<and> advance_tstep (dump s) recs1 = Inr s1 \<longrightarrow>
             deck2df parse_ecl_month ?deck startdate welspecs
             = Inl (ReturnNone, logged s1 @ [(CRITICAL, InvalidTSTEP (sum_list steplist))])"
    by (simp add: deck2df_def)
  ultimately show ?thesis by blast
qed

theorem nonpositive_tstep_aborts_witness:
  "sum_list [1, -1] \<le> (0 :: int)
   \<and> scan ecl_months True (init None)
       [START [\<lparr>DAY = 1, MONTH = ''JAN'', YEAR = 2020\<rparr>], GRUPTREE [(''W1'', ''GRP1'')]]
     = Inr ((init (Some (ymd2ord 2020 1 1)))
              \<lparr>currentedges := [((''W1'', ''GRP1''), ''GRUPTREE'')], found_gruptree := True\<rparr>)
   \<and> advance_tstep
       (dump ((init (Some (ymd2ord 2020 1 1)))
                \<lparr>currentedges := [((''W1'', ''GRP1''), ''GRUPTREE'')], found_gruptree := True\<rparr>))
       [[31]]
     = Inr ((init (Some (ymd2ord 2020 2 1)))
              \<lparr>gruptreerecords := [\<lparr>DATE = Some (ymd2ord 2020 1 1), CHILD = ''W1'',
                                     PARENT = ''GRP1'', TYPE_col = ''GRUPTREE'', NETCOLS = []\<rparr>],
               currentedges := [((''W1'', ''GRP1''), ''GRUPTREE'')],
               logged := [(INFO, Advancing 31 (ymd2ord 2020 2 1))]\<rparr>)
   \<and> deck2df ecl_months
       ([START [\<lparr>DAY = 1, MONTH = ''JAN'', YEAR = 2020\<rparr>], GRUPTREE [(''W1'', ''GRP1'')]]
        @ TSTEP ([[31]] @ [1, -1] # [[5]]) # [WELSPECS [(''W2'', ''GRP1'')]])
       None True
     = Inl (ReturnNone,
            [(INFO, Advancing 31 (ymd2ord 2020 2 1)), (CRITICAL, InvalidTSTEP 0)])"
proof -
  let ?pre = "[START [\<lparr>DAY = 1, MONTH = ''JAN'', YEAR = 2020\<rparr>], GRUPTREE [(''W1'', ''GRP1'')]]"
  let ?s = "(init (Some (ymd2ord 2020 1 1)))
              \<lparr>currentedges := [((''W1'', ''GRP1''), ''GRUPTREE'')], found_gruptree := True\<rparr>"
  let ?s1 = "(init (Some (ymd2ord 2020 2 1)))
              \<lparr>gruptreerecords := [\<lparr>DATE = Some (ymd2ord 2020 1 1), CHILD = ''W1'',
                                     PARENT = ''GRP1'', TYPE_col = ''GRUPTREE'', NETCOLS = []\<rparr>],
               currentedges := [((''W1'', ''GRP1''), ''GRUPTREE'')],
               logged := [(INFO, Advancing 31 (ymd2ord 2020 2 1))]\<rparr>"
  have h0: "sum_list [1, -1] \<le> (0 :: int)" by simp
  have h1: "scan ecl_months True (init None) ?pre = Inr ?s"
    by (simp add: scan_defs date_defs table_defs)
  have h2: "advance_tstep (dump ?s) [[31]] = Inr ?s1"
    by (simp add: scan_defs date_defs table_defs)
  from nonpositive_tstep_aborts[OF h0, of ecl_months ?pre "[[31]]" "[[5]]"
      "[WELSPECS [(''W2'', ''GRP1'')]]" None True] h1 h2
  have "deck2df ecl_months (?pre @ TSTEP ([[31]] @ [1, -1] # [[5]]) # [WELSPECS [(''W2'', ''GRP1'')]])
          None True
        = Inl (ReturnNone, logged ?s1 @ [(CRITICAL, InvalidTSTEP (sum_list [1, -1]))])"
    by blast
  then show ?thesis using h0 h1 h2 by (simp add: init_def)
qed

text \<open>
  The claim as first stated, for every deck with such a record, fails when an earlier
  keyword raises: no month has a day 32, the \<open>START\<close> record raises \<open>ValueError\<close>, and
  no total is reported.
\<close>

theorem earlier_exception_counterexample:
  "deck2df ecl_months
     [START [\<lparr>DAY = 32, MONTH = ''JAN'', YEAR = 2020\<rparr>], GRUPTREE [(''W1'', ''GRP1'')],
      TSTEP [[0]]]
     None True
   = Inl (Exception ValueError, [])"
  by (simp add: scan_defs date_defs table_defs)

subsection \<open>The dump after the last keyword\<close>

text \<open>
  C2 does not hold of the code: line 162 tests \<open>found_gruptree\<close> and \<open>found_welspecs\<close>
  only, where line 82 tests \<open>found_grupnet\<close> too. A \<open>GRUPNET\<close> block after the last
  date-advancing keyword sets its flag, and still the table holds the snapshot of
  2020-01-01 only: no final snapshot at 2020-02-01 is written.
\<close>

theorem final_dump_ignores_grupnet:
  "deck2df ecl_months
     [START [\<lparr>DAY = 1, MONTH = ''JAN'', YEAR = 2020\<rparr>],
      GRUPTREE [(''GRP1'', ''FIELD'')],
      DATES [\<lparr>DAY = 1, MONTH = ''FEB'', YEAR = 2020\<rparr>],
      GRUPNET [[(''NAME'', [Str ''GRP1'']), (''ALQ'', [Num 5])]]]
     None True
   = Inr ([\<lparr>DATE = Some (ymd2ord 2020 1 1), CHILD = ''GRP1'', PARENT = ''FIELD'',
             TYPE_col = ''GRUPTREE'', NETCOLS = []\<rparr>], [])"
  by (simp add: scan_defs date_defs table_defs)

subsection \<open>\<open>TSTEP\<close> before any date\<close>

text \<open>
  C4 does not hold of the code: the fallback date is put in place inside the dump
  (line 88) only. When \<open>TSTEP\<close> comes first there is nothing to dump, \<open>date\<close> is still
  \<open>None\<close> in line 123, and adding a \<open>timedelta\<close> to it raises \<open>TypeError\<close>; no warning
  is logged and no snapshot at 1900-01-11 is written.
\<close>

theorem tstep_without_date_raises:
  "deck2df ecl_months [TSTEP [[10]], GRUPTREE [(''W1'', ''GRP1'')]] None True
     = Inl (Exception TypeError, [])"
  by (simp add: scan_defs date_defs table_defs)

subsection \<open>The network attribute table\<close>

lemma filter_key_empty:
  "k \<notin> fst ` set (map (\<lambda>r. (f r, r)) xs) \<Longrightarrow> filter (\<lambda>r. f r = k) xs = []"
  by (induction xs) auto

lemma filter_key_nonempty:
  "k \<in> fst ` set (map (\<lambda>r. (f r, r)) xs) \<Longrightarrow> filter (\<lambda>r. f r = k) xs \<noteq> []"
  by (induction xs) auto

lemma map_of_drop_duplicates_last:
  "map_of (drop_duplicates_last (map (\<lambda>r. (f r, r)) xs)) k =
     (case filter (\<lambda>r. f r = k) xs of [] \<Rightarrow> None | r # rs \<Rightarrow> Some (last (r # rs)))"
proof (induction xs)
  case Nil
  then show ?case by simp
next
  case (Cons x xs)
  show ?case
  proof (cases "f x = k")
    case True
    show ?thesis
    proof (cases "k \<in> fst ` set (map (\<lambda>r. (f r, r)) xs)")
      case in_rest: True
      from filter_key_nonempty[OF in_rest] obtain y ys where
        "filter (\<lambda>r. f r = k) xs = y # ys" by (cases "filter (\<lambda>r. f r = k) xs") auto
      with Cons True in_rest show ?thesis by simp
    next
      case False
      from filter_key_empty[OF False] True False show ?thesis by simp
    qed
  next
    case False
    with Cons show ?thesis by simp
  qed
qed

lemma last_record_append_new:
  "\<exists>r \<in> set new. map_of r ''NAME'' = name \<Longrightarrow> last_record name (old @ new) = last_record name new"
proof -
  assume "\<exists>r \<in> set new. map_of r ''NAME'' = name"
  then have "filter (\<lambda>r. map_of r ''NAME'' = name) new \<noteq> []"
    by (auto simp: filter_empty_conv)
  then obtain y ys where "filter (\<lambda>r. map_of r ''NAME'' = name) new = y # ys"
    by (cases "filter (\<lambda>r. map_of r ''NAME'' = name) new") auto
  then show ?thesis
    by (cases "filter (\<lambda>r. map_of r ''NAME'' = name) old") (simp_all add: last_record_def)
qed

lemma last_record_append_old:
  "\<not> (\<exists>r \<in> set new. map_of r ''NAME'' = name) \<Longrightarrow> last_record name (old @ new) = last_record name old"
proof -
  assume "\<not> (\<exists>r \<in> set new. map_of r ''NAME'' = name)"
  then have "filter (\<lambda>r. map_of r ''NAME'' = name) new = []"
    by (auto simp: filter_empty_conv)
  then show ?thesis by (simp add: last_record_def)
qed

lemma build_index_rows:
  "build_grupnet_df recs = Inr df \<Longrightarrow> map_of (index_rows df) name = last_record name recs"
  by (auto simp: build_grupnet_df_def last_record_def map_of_drop_duplicates_last split: if_splits)

text \<open>
  C5, as amended. A \<open>GRUPNET\<close> block appends its records to the list of all records
  read so far, and the table is built again from that whole list: the row of a name is
  the last record with that name in the list. For a name that the block defines this is
  the block's last record for it, and every column of the joined row is read from that
  one record, so a field the record lacks is empty and no older value shows. For a name
  that the block does not define, it is the last record of the earlier blocks: such a
  name stays in the table.
\<close>

theorem grupnet_table_rebuilt_from_all_records:
  assumes "step parse_ecl_month welspecs s (GRUPNET recs) = Inr s'"
  shows "grupnetrecords s' = grupnetrecords s @ map grupnet_data_of recs
       \<and> (\<forall>name. map_of (index_rows (grupnet_df s')) name = last_record name (grupnetrecords s'))
       \<and> (\<forall>name. (\<exists>r \<in> set (map grupnet_data_of recs). map_of r ''NAME'' = name) \<longrightarrow>
             last_record name (grupnetrecords s') = last_record name (map grupnet_data_of recs))
       \<and> (\<forall>name. \<not> (\<exists>r \<in> set (map grupnet_data_of recs). map_of r ''NAME'' = name) \<longrightarrow>
             last_record name (grupnetrecords s') = last_record name (grupnetrecords s))
       \<and> (\<forall>child. loc (grupnet_df s') child =
             (case last_record (Some (Str child)) (grupnetrecords s') of
                None \<Rightarrow> []
              | Some r \<Rightarrow> map (\<lambda>c. (c, map_of r c)) (columns (grupnet_df s'))))"
proof -
  let ?all = "grupnetrecords s @ map grupnet_data_of recs"
  from assms have b: "build_grupnet_df ?all = Inr (grupnet_df s')"
    and r: "grupnetrecords s' = ?all"
    by (auto simp: Let_def split: sum.splits)
  have i: "\<And>name. map_of (index_rows (grupnet_df s')) name = last_record name ?all"
    using b by (rule build_index_rows)
  have l: "\<And>child. loc (grupnet_df s') child =
             (case last_record (Some (Str child)) ?all of
                None \<Rightarrow> []
              | Some r \<Rightarrow> map (\<lambda>c. (c, map_of r c)) (columns (grupnet_df s')))"
    by (simp add: loc_def i)
  show ?thesis
    unfolding r using i l
    by (simp add: last_record_append_new last_record_append_old del: set_map)
qed

theorem grupnet_table_rebuilt_from_all_records_witness:
  "step ecl_months True
     ((init None)
        \<lparr>grupnetrecords := [[(''NAME'', Str ''GRP1''), (''ALQ'', Num 5)]],
         grupnet_df := \<lparr>columns = [''ALQ''],
                        index_rows = [(Some (Str ''GRP1''), [(''NAME'', Str ''GRP1''), (''ALQ'', Num 5)])]\<rparr>,
         found_grupnet := True\<rparr>)
     (GRUPNET [[(''NAME'', [Str ''GRP1'']), (''VFP_TABLE'', [Num 2]), (''ALQ'', [])]])
   = Inr ((init None)
        \<lparr>grupnetrecords := [[(''NAME'', Str ''GRP1''), (''ALQ'', Num 5)],
                            [(''NAME'', Str ''GRP1''), (''VFP_TABLE'', Num 2)]],
         grupnet_df := \<lparr>columns = [''VFP_TABLE'', ''ALQ''],
                        index_rows = [(Some (Str ''GRP1''), [(''NAME'', Str ''GRP1''), (''VFP_TABLE'', Num 2)])]\<rparr>,
         found_grupnet := True\<rparr>)
   \<and> loc \<lparr>columns = [''VFP_TABLE'', ''ALQ''],
          index_rows = [(Some (Str ''GRP1''), [(''NAME'', Str ''GRP1''), (''VFP_TABLE'', Num 2)])]\<rparr>
        ''GRP1''
     = [(''VFP_TABLE'', Some (Num 2)), (''ALQ'', None)]"
proof -
  let ?s = "(init None)
        \<lparr>grupnetrecords := [[(''NAME'', Str ''GRP1''), (''ALQ'', Num 5)]],
         grupnet_df := \<lparr>columns = [''ALQ''],
                        index_rows = [(Some (Str ''GRP1''), [(''NAME'', Str ''GRP1''), (''ALQ'', Num 5)])]\<rparr>,
         found_grupnet := True\<rparr>"
  let ?df = "\<lparr>columns = [''VFP_TABLE'', ''ALQ''],
          index_rows = [(Some (Str ''GRP1''), [(''NAME'', Str ''GRP1''), (''VFP_TABLE'', Num 2)])]\<rparr>"
  let ?s' = "(init None)
        \<lparr>grupnetrecords := [[(''NAME'', Str ''GRP1''), (''ALQ'', Num 5)],
                            [(''NAME'', Str ''GRP1''), (''VFP_TABLE'', Num 2)]],
         grupnet_df := ?df, found_grupnet := True\<rparr>"
  have h: "step ecl_months True ?s
      (GRUPNET [[(''NAME'', [Str ''GRP1'']), (''VFP_TABLE'', [Num 2]), (''ALQ'', [])]]) = Inr ?s'"
    by (simp add: scan_defs table_defs)
  from grupnet_table_rebuilt_from_all_records[OF h]
  have "loc (grupnet_df ?s') ''GRP1'' =
          (case last_record (Some (Str ''GRP1'')) (grupnetrecords ?s') of
             None \<Rightarrow> []
           | Some r \<Rightarrow> map (\<lambda>c. (c, map_of r c)) (columns (grupnet_df ?s')))"
    by blast
  then have "loc ?df ''GRP1'' = [(''VFP_TABLE'', Some (Num 2)), (''ALQ'', None)]"
    by (simp add: last_record_def)
  with h show ?thesis by blast
qed

text \<open>
  The claim as first stated, that a name of an earlier block only is dropped, fails:
  \<open>GRP1\<close> is defined in the first block only, and its row of the snapshot taken after
  the second block still carries \<open>ALQ\<close> = 5.
\<close>

theorem earlier_block_kept_counterexample:
  "deck2df ecl_months
     [START [\<lparr>DAY = 1, MONTH = ''JAN'', YEAR = 2020\<rparr>],
      GRUPTREE [(''GRP1'', ''FIELD''), (''GRP2'', ''FIELD'')],
      GRUPNET [[(''NAME'', [Str ''GRP1'']), (''ALQ'', [Num 5])]],
      GRUPNET [[(''NAME'', [Str ''GRP2'']), (''VFP_TABLE'', [Num 1])]],
      DATES [\<lparr>DAY = 1, MONTH = ''FEB'', YEAR = 2020\<rparr>]]
     None True
   = Inr ([\<lparr>DATE = Some (ymd2ord 2020 1 1), CHILD = ''GRP1'', PARENT = ''FIELD'',
             TYPE_col = ''GRUPTREE'',
             NETCOLS = [(''VFP_TABLE'', None), (''ALQ'', Some (Num 5))]\<rparr>,
           \<lparr>DATE = Some (ymd2ord 2020 1 1), CHILD = ''GRP2'', PARENT = ''FIELD'',
             TYPE_col = ''GRUPTREE'',
             NETCOLS = [(''VFP_TABLE'', Some (Num 1)), (''ALQ'', None)]\<rparr>],
          [])"
  by (simp add: scan_defs date_defs table_defs)

subsection \<open>The order of the dates in the table\<close>

lemma DATE_snapshot_row: "map (DATE \<circ> snapshot_row d df) items = map (\<lambda>_. Some d) items"
  by (simp add: snapshot_row_def)

lemma sorted_constant: "sorted (map (\<lambda>_. d) xs)"
  by (induction xs) simp_all

lemma dated_up_to_append:
  assumes "dated_up_to rows now" and "now = None \<or> now = Some d"
    and "map DATE new = map (\<lambda>_. Some d) new"
  shows "dated_up_to (rows @ new) (Some d)"
proof -
  from assms(1) obtain ds where ds: "map DATE rows = map Some ds" "sorted ds"
    "\<forall>x \<in> set ds. case now of None \<Rightarrow> False | Some dc \<Rightarrow> x \<le> dc"
    by (auto simp: dated_up_to_def)
  from ds(3) assms(2) have le: "\<forall>x \<in> set ds. x \<le> d" by auto
  let ?ds = "ds @ map (\<lambda>_. d) new"
  have "map DATE (rows @ new) = map Some ?ds" using ds(1) assms(3) by simp
  moreover have "sorted ?ds" using ds(2) le by (auto simp: sorted_append sorted_constant)
  moreover have "\<forall>x \<in> set ?ds. x \<le> d" using le by auto
  ultimately show ?thesis unfolding dated_up_to_def by (intro exI[of _ ?ds]) simp
qed

lemma dated_up_to_dump:
  assumes "dated_up_to (gruptreerecords s) (date s)"
  shows "dated_up_to (gruptreerecords (dump s)) (date (dump s))"
proof (cases "currentedges s \<noteq> [] \<and> pending s")
  case True
  then have e: "currentedges s \<noteq> []" and p: "pending s" by simp_all
  have "date s = None \<or> date s = Some (stamp s)" by (cases "date s") (auto simp: stamp_def)
  from dated_up_to_append[OF assms this, of "map (snapshot_row (stamp s) (grupnet_df s)) (currentedges s)"]
  show ?thesis by (simp add: dump_due[OF e p] DATE_snapshot_row)
next
  case False
  then have "dump s = s" by (auto intro: dump_not_due)
  with assms show ?thesis by simp
qed

lemma dated_up_to_later:
  assumes "dated_up_to rows now" and "not_earlier now now'" and "now \<noteq> None \<Longrightarrow> now' \<noteq> None"
  shows "dated_up_to rows now'"
proof -
  from assms(1) obtain ds where ds: "map DATE rows = map Some ds" "sorted ds"
    "\<forall>x \<in> set ds. case now of None \<Rightarrow> False | Some dc \<Rightarrow> x \<le> dc"
    by (auto simp: dated_up_to_def)
  have "\<forall>x \<in> set ds. case now' of None \<Rightarrow> False | Some dc \<Rightarrow> x \<le> dc"
  proof
    fix x assume x: "x \<in> set ds"
    with ds(3) obtain dc where dc: "now = Some dc" "x \<le> dc" by (cases now) auto
    with assms(3) obtain dc' where dc': "now' = Some dc'" by auto
    with dc assms(2) show "case now' of None \<Rightarrow> False | Some dc \<Rightarrow> x \<le> dc" by simp
  qed
  with ds(1,2) show ?thesis unfolding dated_up_to_def by blast
qed

lemma parse_dates_keeps_date:
  "parse_dates pem s recs = Inr s' \<Longrightarrow> date s \<noteq> None \<Longrightarrow> date s' \<noteq> None"
  by (induction recs arbitrary: s) (auto split: option.splits sum.splits)

lemma advance_tstep_later:
  "advance_tstep s recs = Inr s' \<Longrightarrow>
     not_earlier (date s) (date s') \<and> (date s \<noteq> None \<longrightarrow> date s' \<noteq> None)"
proof (induction recs arbitrary: s)
  case Nil
  then show ?case by (cases "date s") auto
next
  case (Cons steplist recs)
  let ?days = "sum_list steplist"
  from Cons.prems obtain d d' where d: "date s = Some d" "0 < ?days" "date_add d ?days = Inr d'"
    and rest: "advance_tstep (s\<lparr>date := Some d', logged := logged s @ [(INFO, Advancing ?days d')]\<rparr>) recs = Inr s'"
    by (auto simp: Let_def split: if_splits option.splits sum.splits)
  from d(3) have "d' = d + ?days" by (auto simp: date_add_def Let_def split: if_splits)
  with d(2) have "d \<le> d'" by simp
  moreover from Cons.IH[OF rest] obtain d'' where "date s' = Some d''" "d' \<le> d''"
    by (cases "date s'") auto
  ultimately show ?case using d(1) by simp
qed

lemma dated_up_to_step:
  assumes "dated_up_to (gruptreerecords s) (date s)"
    and "step pem w s kw = Inr s'"
    and "date_setting kw \<Longrightarrow> not_earlier (date (dump s)) (date s')"
  shows "dated_up_to (gruptreerecords s') (date s')"
proof (cases "date_advancing kw")
  case False
  with other_step_keeps(1,5)[OF False assms(2)] assms(1) show ?thesis by simp
next
  case True
  have d: "dated_up_to (gruptreerecords (dump s)) (date (dump s))"
    using assms(1) by (rule dated_up_to_dump)
  have "not_earlier (date (dump s)) (date s') \<and> (date (dump s) \<noteq> None \<longrightarrow> date s' \<noteq> None)"
  proof (cases kw)
    case (DATES recs)
    with assms(2,3) show ?thesis
      by (auto simp: date_setting_def dest: parse_dates_keeps_date)
  next
    case (START recs)
    with assms(2,3) show ?thesis
      by (auto simp: date_setting_def dest: parse_dates_keeps_date)
  next
    case (TSTEP recs)
    with assms(2) show ?thesis by (simp add: advance_tstep_later)
  qed (use True in \<open>simp_all add: date_advancing_def\<close>)
  with d have "dated_up_to (gruptreerecords (dump s)) (date s')"
    by (auto intro: dated_up_to_later)
  then show ?thesis by (simp add: date_step_fields(1)[OF True assms(2)])
qed

lemma dated_up_to_scan:
  "dated_up_to (gruptreerecords s) (date s) \<Longrightarrow> clock_never_set_back pem w s deck \<Longrightarrow>
     scan pem w s deck = Inr s' \<Longrightarrow> dated_up_to (gruptreerecords s') (date s')"
proof (induction deck arbitrary: s)
  case Nil
  then show ?case by simp
next
  case (Cons kw deck)
  from Cons.prems(3) obtain s1 where s1: "step pem w s kw = Inr s1"
    and rest: "scan pem w s1 deck = Inr s'"
    by (auto split: sum.splits)
  from Cons.prems(2) s1 have ok: "date_setting kw \<Longrightarrow> not_earlier (date (dump s)) (date s1)"
    and ok': "clock_never_set_back pem w s1 deck"
    by (auto split: if_splits)
  from dated_up_to_step[OF Cons.prems(1) s1 ok] have "dated_up_to (gruptreerecords s1) (date s1)" .
  from Cons.IH[OF this ok' rest] show ?case .
qed

lemma DATE_rec_dict:
  "map (DATE \<circ> (\<lambda>(edgename, value). rec_dict s edgename value)) items = map (\<lambda>_. date s) items"
  by (induction items) (auto simp: rec_dict_def)

lemma dated_up_to_final:
  assumes "dated_up_to (gruptreerecords s) (date s)"
  shows "(\<forall>r \<in> set (gruptreerecords (final_dump s)). DATE r = None)
       \<or> (\<exists>ds. map DATE (gruptreerecords (final_dump s)) = map Some ds \<and> sorted ds)"
proof (cases "date s")
  case None
  with assms have "gruptreerecords s = []" by (auto simp: dated_up_to_def)
  with None have "\<forall>r \<in> set (gruptreerecords (final_dump s)). DATE r = None"
    by (auto simp: final_dump_def store_edges_def rec_dict_def)
  then show ?thesis ..
next
  case (Some d)
  let ?new = "map (\<lambda>(edgename, value). rec_dict s edgename value) (currentedges s)"
  have "map DATE ?new = map (\<lambda>_. Some d) ?new" using Some by (simp add: DATE_rec_dict)
  from dated_up_to_append[OF assms _ this] Some
  have "dated_up_to (gruptreerecords s @ ?new) (Some d)" by simp
  with assms have "dated_up_to (gruptreerecords (final_dump s)) (Some d)"
    by (simp add: final_dump_def store_edges_def Some)
  then show ?thesis by (auto simp: dated_up_to_def)
qed

text \<open>
  C7, as amended. When no \<open>DATES\<close> or \<open>START\<close> keyword of the deck sets the clock back,
  the dates of the returned table are non-decreasing in row order (or no row has a
  date, which happens when the only snapshot is the final one and no date was ever
  set).
\<close>

theorem output_dates_nondecreasing:
  assumes "clock_never_set_back parse_ecl_month welspecs (init startdate) deck"
    and "deck2df parse_ecl_month deck startdate welspecs = Inr (rows, lg)"
  shows "(\<forall>r \<in> set rows. DATE r = None) \<or> (\<exists>ds. map DATE rows = map Some ds \<and> sorted ds)"
proof -
  from assms(2) obtain s where s: "scan parse_ecl_month welspecs (init startdate) deck = Inr s"
    and rows: "rows = gruptreerecords (final_dump s)"
    by (auto simp: deck2df_def Let_def split: sum.splits if_splits)
  have "dated_up_to (gruptreerecords (init startdate)) (date (init startdate))"
    by (simp add: dated_up_to_def init_def)
  from dated_up_to_scan[OF this assms(1) s] have "dated_up_to (gruptreerecords s) (date s)" .
  then show ?thesis unfolding rows by (rule dated_up_to_final)
qed

theorem output_dates_nondecreasing_witness:
  "clock_never_set_back ecl_months True (init None)
     [START [\<lparr>DAY = 1, MONTH = ''JAN'', YEAR = 2020\<rparr>], GRUPTREE [(''W1'', ''GRP1'')],
      DATES [\<lparr>DAY = 1, MONTH = ''FEB'', YEAR = 2020\<rparr>], WELSPECS [(''W2'', ''GRP1'')]]
   \<and> deck2df ecl_months
       [START [\<lparr>DAY = 1, MONTH = ''JAN'', YEAR = 2020\<rparr>], GRUPTREE [(''W1'', ''GRP1'')],
        DATES [\<lparr>DAY = 1, MONTH = ''FEB'', YEAR = 2020\<rparr>], WELSPECS [(''W2'', ''GRP1'')]]
       None True
     = Inr ([\<lparr>DATE = Some (ymd2ord 2020 1 1), CHILD = ''W1'', PARENT = ''GRP1'',
               TYPE_col = ''GRUPTREE'', NETCOLS = []\<rparr>,
             \<lparr>DATE = Some (ymd2ord 2020 2 1), CHILD = ''W1'', PARENT = ''GRP1'',
               TYPE_col = ''GRUPTREE'', NETCOLS = []\<rparr>,
             \<lparr>DATE = Some (ymd2ord 2020 2 1), CHILD = ''W2'', PARENT = ''GRP1'',
               TYPE_col = ''WELSPECS'', NETCOLS = []\<rparr>], [])
   \<and> sorted [ymd2ord 2020 1 1, ymd2ord 2020 2 1, ymd2ord 2020 2 1]"
proof -
  let ?deck = "[START [\<lparr>DAY = 1, MONTH = ''JAN'', YEAR = 2020\<rparr>], GRUPTREE [(''W1'', ''GRP1'')],
      DATES [\<lparr>DAY = 1, MONTH = ''FEB'', YEAR = 2020\<rparr>], WELSPECS [(''W2'', ''GRP1'')]]"
  let ?rows = "[\<lparr>DATE = Some (ymd2ord 2020 1 1), CHILD = ''W1'', PARENT = ''GRP1'',
               TYPE_col = ''GRUPTREE'', NETCOLS = []\<rparr>,
             \<lparr>DATE = Some (ymd2ord 2020 2 1), CHILD = ''W1'', PARENT = ''GRP1'',
               TYPE_col = ''GRUPTREE'', NETCOLS = []\<rparr>,
             \<lparr>DATE = Some (ymd2ord 2020 2 1), CHILD = ''W2'', PARENT = ''GRP1'',
               TYPE_col = ''WELSPECS'', NETCOLS = []\<rparr>]"
  have h1: "clock_never_set_back ecl_months True (init None) ?deck"
    by (simp add: scan_defs date_defs table_defs date_setting_def)
  have h2: "deck2df ecl_months ?deck None True = Inr (?rows, [])"
    by (simp add: scan_defs date_defs table_defs)
  from output_dates_nondecreasing[OF h1 h2]
  have "\<exists>ds. map DATE ?rows = map Some ds \<and> sorted ds" by simp
  then obtain ds where d: "map DATE ?rows = map Some ds" and s: "sorted ds" by blast
  from d have "ds = [ymd2ord 2020 1 1, ymd2ord 2020 2 1, ymd2ord 2020 2 1]"
    by (auto simp: Cons_eq_map_conv)
  with s h1 h2 show ?thesis by blast
qed

text \<open>
  The claim as first stated, for every deck, fails: \<open>DATES\<close> is taken as it is, and a
  date before the current one puts the later snapshot before the earlier one.
\<close>

theorem dates_set_back_counterexample:
  "deck2df ecl_months
     [START [\<lparr>DAY = 1, MONTH = ''JAN'', YEAR = 2020\<rparr>], GRUPTREE [(''W1'', ''GRP1'')],
      DATES [\<lparr>DAY = 1, MONTH = ''JAN'', YEAR = 2019\<rparr>], WELSPECS [(''W2'', ''GRP1'')]]
     None True
   = Inr ([\<lparr>DATE = Some (ymd2ord 2020 1 1), CHILD = ''W1'', PARENT = ''GRP1'',
             TYPE_col = ''GRUPTREE'', NETCOLS = []\<rparr>,
           \<lparr>DATE = Some (ymd2ord 2019 1 1), CHILD = ''W1'', PARENT = ''GRP1'',
             TYPE_col = ''GRUPTREE'', NETCOLS = []\<rparr>,
           \<lparr>DATE = Some (ymd2ord 2019 1 1), CHILD = ''W2'', PARENT = ''GRP1'',
             TYPE_col = ''WELSPECS'', NETCOLS = []\<rparr>], [])
   \<and> ymd2ord 2019 1 1 < ymd2ord 2020 1 1"
  by (simp add: scan_defs date_defs table_defs)

section \<open>Properties of \<open>gruptreedf2dict\<close>\<close>

lemma map_of_getitem_default:
  "map_of (getitem_default h key) =
     (case map_of h key of None \<Rightarrow> (map_of h)(key \<mapsto> []) | Some _ \<Rightarrow> map_of h)"
  by (auto simp: getitem_default_def fun_eq_iff map_add_def split: option.splits)

lemma child_ref_getitem_default [simp]:
  "child_ref (getitem_default h key) a k = child_ref h a k"
  by (auto simp: child_ref_def map_of_getitem_default split: option.splits)

lemma getitem_default_present:
  "map_of (getitem_default h key) key \<noteq> None"
  by (auto simp: map_of_getitem_default split: option.splits)

lemma getitem_default_keeps:
  "map_of h a \<noteq> None \<Longrightarrow> map_of (getitem_default h key) a \<noteq> None"
  by (auto simp: map_of_getitem_default split: option.splits)

lemma child_ref_add_edge:
  "child_ref (add_edge h (child, parent)) a k =
     (if a = parent \<and> k = child then Some child else child_ref h a k)"
proof -
  let ?h2 = "getitem_default (getitem_default h child) parent"
  have p: "map_of ?h2 parent \<noteq> None" by (rule getitem_default_present)
  have "child_ref (AList.map_entry parent (AList.update child child) ?h2) a k =
     (if a = parent \<and> k = child then Some child else child_ref ?h2 a k)"
    using p by (auto simp: child_ref_def map_of_map_entry update_conv' split: option.splits)
  then show ?thesis by (simp add: add_edge_def Let_def)
qed

lemma child_ref_fill_subtrees:
  "child_ref (fill_subtrees edges h) a k =
     (if (k, a) \<in> set edges then Some k else child_ref h a k)"
proof (induction edges arbitrary: h)
  case Nil
  then show ?case by simp
next
  case (Cons edge edges)
  obtain child parent where e: "edge = (child, parent)" by (cases edge)
  show ?case by (auto simp: Cons.IH e child_ref_add_edge)
qed

lemma child_ref_empty [simp]: "child_ref [] a k = None"
  by (simp add: child_ref_def)

lemma map_of_roots: "map_of (map (\<lambda>root. (root, root)) roots) name = Some a \<longleftrightarrow> name \<in> set roots \<and> a = name"
  by (induction roots) auto

lemma nested_child_ref:
  "nested h trees name a \<Longrightarrow> child_ref h a k = Some a' \<Longrightarrow> nested h trees k a'"
  by (auto simp: child_ref_def split: option.splits intro: nested.sub)

lemma set_root_names: "set (root_names edges) = snd ` set edges - fst ` set edges"
  by (auto simp: root_names_def)

lemma in_trees:
  "(\<exists>t \<in> set (map (\<lambda>_. map (\<lambda>root. (root, root)) roots) roots). map_of t name = Some a)
     \<longleftrightarrow> name \<in> set roots \<and> a = name"
  by (cases roots) (auto simp: map_of_roots)

lemma nested_addr:
  assumes "nested (fill_subtrees edges []) (map (\<lambda>_. map (\<lambda>root. (root, root)) roots) roots) name a"
  shows "a = name"
  using assms
proof (induction rule: nested.induct)
  case (top t name a)
  then show ?case using in_trees[of roots name a] by blast
next
  case (sub name a d k a')
  then have "child_ref (fill_subtrees edges []) a k = Some a'"
    by (simp add: child_ref_def)
  then show ?case by (simp add: child_ref_fill_subtrees split: if_splits)
qed

lemma forest_edges_sub:
  "forest_edges (Trees (map (\<lambda>_. map (\<lambda>root. (root, root)) roots) roots) (fill_subtrees edges []))
     \<subseteq> set edges"
proof
  fix e
  assume "e \<in> forest_edges (Trees (map (\<lambda>_. map (\<lambda>root. (root, root)) roots) roots) (fill_subtrees edges []))"
  then obtain child parent a d a' where e: "e = (child, parent)"
    and n: "nested (fill_subtrees edges []) (map (\<lambda>_. map (\<lambda>root. (root, root)) roots) roots) parent a"
    and d: "map_of (fill_subtrees edges []) a = Some d" "map_of d child = Some a'"
    by (auto simp: forest_edges_def)
  from n have "a = parent" by (rule nested_addr)
  moreover from d have "child_ref (fill_subtrees edges []) a child = Some a'"
    by (simp add: child_ref_def)
  ultimately show "e \<in> set edges"
    unfolding e by (simp add: child_ref_fill_subtrees split: if_splits)
qed

lemma parents_nested:
  assumes "acyclic (set edges)" and "set roots = snd ` set edges - fst ` set edges"
    and "parent \<in> snd ` set edges"
  shows "nested (fill_subtrees edges []) (map (\<lambda>_. map (\<lambda>root. (root, root)) roots) roots) parent parent"
proof -
  let ?h = "fill_subtrees edges []"
  let ?trees = "map (\<lambda>_. map (\<lambda>root. (root, root)) roots) roots"
  have "wf ((set edges)\<inverse>)"
    using assms(1) by (intro finite_acyclic_wf_converse) simp_all
  then have "parent \<in> snd ` set edges \<longrightarrow> nested ?h ?trees parent parent"
  proof (induction parent rule: wf_induct_rule)
    case (less p)
    show ?case
    proof
      assume p: "p \<in> snd ` set edges"
      show "nested ?h ?trees p p"
      proof (cases "p \<in> fst ` set edges")
        case False
        with p assms(2) have "p \<in> set roots" by simp
        then obtain t where "t \<in> set ?trees" "map_of t p = Some p"
          using in_trees[of roots p p] by blast
        then show ?thesis by (rule nested.top)
      next
        case True
        then obtain q where q: "(p, q) \<in> set edges" by auto
        then have "q \<in> snd ` set edges" by force
        moreover from q have "(q, p) \<in> (set edges)\<inverse>" by simp
        ultimately have "nested ?h ?trees q q" using less.IH by blast
        moreover from q have "child_ref ?h q p = Some p"
          by (simp add: child_ref_fill_subtrees)
        ultimately show ?thesis by (rule nested_child_ref)
      qed
    qed
  qed
  with assms(3) show ?thesis by blast
qed

lemma forest_edges_sup:
  assumes "acyclic (set edges)" and "set roots = snd ` set edges - fst ` set edges"
  shows "set edges \<subseteq>
     forest_edges (Trees (map (\<lambda>_. map (\<lambda>root. (root, root)) roots) roots) (fill_subtrees edges []))"
proof
  fix e assume e: "e \<in> set edges"
  obtain child parent where cp: "e = (child, parent)" by (cases e)
  with e have "parent \<in> snd ` set edges" by force
  from parents_nested[OF assms this]
  have n: "nested (fill_subtrees edges []) (map (\<lambda>_. map (\<lambda>root. (root, root)) roots) roots) parent parent" .
  from e cp have "child_ref (fill_subtrees edges []) parent child = Some child"
    by (simp add: child_ref_fill_subtrees)
  then obtain d where "map_of (fill_subtrees edges []) parent = Some d" "map_of d child = Some child"
    by (auto simp: child_ref_def split: option.splits)
  with n show "e \<in> forest_edges (Trees (map (\<lambda>_. map (\<lambda>root. (root, root)) roots) roots) (fill_subtrees edges []))"
    unfolding cp forest_edges_def by auto
qed

lemma gruptreedf2dict_Trees:
  "df \<noteq> [] \<Longrightarrow> gruptreedf2dict df =
     Trees (map (\<lambda>_. map (\<lambda>root. (root, root)) (root_names (map (\<lambda>row. (CHILD row, PARENT row)) df)))
              (root_names (map (\<lambda>row. (CHILD row, PARENT row)) df)))
           (fill_subtrees (map (\<lambda>row. (CHILD row, PARENT row)) df) [])"
  by (simp only: gruptreedf2dict_def root_names_def Let_def if_False)

text \<open>
  C8, as amended. The (child, parent) pairs read back from the nested dictionaries that
  \<open>gruptreedf2dict\<close> returns for the rows of one date are always pairs of those rows;
  and when the edges of the rows have no cycle, they are exactly the pairs of the rows.
\<close>

theorem forest_round_trip:
  "forest_edges (gruptreedf2dict df) \<subseteq> (\<lambda>row. (CHILD row, PARENT row)) ` set df
   \<and> (acyclic ((\<lambda>row. (CHILD row, PARENT row)) ` set df) \<longrightarrow>
        forest_edges (gruptreedf2dict df) = (\<lambda>row. (CHILD row, PARENT row)) ` set df)"
proof (cases "df = []")
  case True
  then show ?thesis by (simp add: gruptreedf2dict_def forest_edges_def)
next
  case False
  let ?edges = "map (\<lambda>row. (CHILD row, PARENT row)) df"
  have s: "set ?edges = (\<lambda>row. (CHILD row, PARENT row)) ` set df" by simp
  have sub: "forest_edges (gruptreedf2dict df) \<subseteq> set ?edges"
    unfolding gruptreedf2dict_Trees[OF False] by (rule forest_edges_sub)
  have sup: "set ?edges \<subseteq> forest_edges (gruptreedf2dict df)" if "acyclic (set ?edges)"
    unfolding gruptreedf2dict_Trees[OF False]
    using that set_root_names by (rule forest_edges_sup)
  from sub sup show ?thesis unfolding s by blast
qed

theorem forest_round_trip_witness:
  "acyclic ((\<lambda>row. (CHILD row, PARENT row)) `
      set [\<lparr>DATE = Some (ymd2ord 2020 1 1), CHILD = ''W1'', PARENT = ''GRP1'',
             TYPE_col = ''WELSPECS'', NETCOLS = []\<rparr>,
           \<lparr>DATE = Some (ymd2ord 2020 1 1), CHILD = ''GRP1'', PARENT = ''FIELD'',
             TYPE_col = ''GRUPTREE'', NETCOLS = []\<rparr>])
   \<and> forest_edges
       (gruptreedf2dict
          [\<lparr>DATE = Some (ymd2ord 2020 1 1), CHILD = ''W1'', PARENT = ''GRP1'',
             TYPE_col = ''WELSPECS'', NETCOLS = []\<rparr>,
           \<lparr>DATE = Some (ymd2ord 2020 1 1), CHILD = ''GRP1'', PARENT = ''FIELD'',
             TYPE_col = ''GRUPTREE'', NETCOLS = []\<rparr>])
     = {(''W1'', ''GRP1''), (''GRP1'', ''FIELD'')}"
proof -
  let ?df = "[\<lparr>DATE = Some (ymd2ord 2020 1 1), CHILD = ''W1'', PARENT = ''GRP1'',
             TYPE_col = ''WELSPECS'', NETCOLS = []\<rparr>,
           \<lparr>DATE = Some (ymd2ord 2020 1 1), CHILD = ''GRP1'', PARENT = ''FIELD'',
             TYPE_col = ''GRUPTREE'', NETCOLS = []\<rparr>]"
  let ?rank = "\<lambda>name. if name = ''W1'' then 2 else if name = ''GRP1'' then 1 else (0 :: nat)"
  have h: "acyclic ((\<lambda>row. (CHILD row, PARENT row)) ` set ?df)"
    by (rule acyclicI_order[where f = ?rank]) auto
  from forest_round_trip[of ?df] h
  have "forest_edges (gruptreedf2dict ?df) = (\<lambda>row. (CHILD row, PARENT row)) ` set ?df"
    by blast
  with h show ?thesis by simp
qed

text \<open>
  The claim as first stated, for any rows, fails on a cycle: with the edges A to B and
  B to A every parent is also a child, there is no root, the list of trees is empty,
  and no pair is read back.
\<close>

lemma no_trees: "nested h [] name a \<Longrightarrow> False"
  by (induction rule: nested.induct) simp_all

theorem cyclic_edges_counterexample:
  "forest_edges
     (gruptreedf2dict
        [\<lparr>DATE = Some (ymd2ord 2020 1 1), CHILD = ''A'', PARENT = ''B'', TYPE_col = ''GRUPTREE'',
          NETCOLS = []\<rparr>,
         \<lparr>DATE = Some (ymd2ord 2020 1 1), CHILD = ''B'', PARENT = ''A'', TYPE_col = ''GRUPTREE'',
          NETCOLS = []\<rparr>])
   = {}"
  by (auto simp: gruptreedf2dict_def forest_edges_def dest: no_trees)

text \<open>
  C9 does not hold of the code: the dictionary comprehension of line 242 runs over all
  the roots for every root of the loop, so with two roots \<open>R1\<close> and \<open>R2\<close> the result
  is two dictionaries that each hold both roots, not one single-root dictionary per
  root.
\<close>

theorem every_tree_holds_all_roots:
  "gruptreedf2dict
     [\<lparr>DATE = Some (ymd2ord 2020 1 1), CHILD = ''A'', PARENT = ''R1'', TYPE_col = ''GRUPTREE'',
       NETCOLS = []\<rparr>,
      \<lparr>DATE = Some (ymd2ord 2020 1 1), CHILD = ''B'', PARENT = ''R2'', TYPE_col = ''GRUPTREE'',
       NETCOLS = []\<rparr>]
   = Trees [[(''R1'', ''R1''), (''R2'', ''R2'')], [(''R1'', ''R1''), (''R2'', ''R2'')]]
       [(''A'', []), (''R1'', [(''A'', ''A'')]), (''B'', []), (''R2'', [(''B'', ''B'')])]"
  by (simp add: gruptreedf2dict_def add_edge_def getitem_default_def)

end
